theory Spec2Isabelle
  imports Complex_Main "HOL-Library.Char_ord" "HOL-Library.List_Lexorder" "HOL-Library.Multiset"
begin

section \<open>The ledger engine of \<^verbatim>\<open>src/lib/storage.ts\<close>\<close>

text \<open>
  The engine keeps four things on the device: the user registry (\<^verbatim>\<open>DEMO_USERS_V1\<close>), the
  id of the current user (\<^verbatim>\<open>DEMO_CURRENT_USER_ID\<close>), one transaction list per user
  (\<^verbatim>\<open>DEMO_TXS_USER_\<close> followed by the id) and one secret per user (\<^verbatim>\<open>USER_SECRET_\<close>
  followed by the id, in the secure store). Every exported function is a sequence of reads and
  writes of these, so each is modelled as a function from the store to a result and the store
  it leaves behind.

  A \<^verbatim>\<open>number\<close> is modelled as an exact rational: sums, differences and products are the
  mathematical ones, and the binary representation error of IEEE doubles (and \<^verbatim>\<open>NaN\<close>, the
  infinities and the negative zero) is outside the model. Strings are compared as JavaScript
  compares them, lexicographically by character code.
\<close>

subsection \<open>Data model\<close>

datatype TxType = Send | Receive | Topup | Refund

datatype TxStatus = Completed | Pending | Failed

record User =
  id_user :: string
  name :: string
  identifier_user :: string
  balance :: rat
  createdAt_user :: string

record Transaction =
  id_tx :: string
  userId :: string
  type_tx :: TxType
  counterparty :: "string option"
  amount :: rat
  fee :: rat
  total :: rat
  note_tx :: "string option"
  status :: TxStatus
  createdAt :: string

text \<open>The argument object of \<^verbatim>\<open>createTransactionForCurrentUser\<close>; an optional field that is
  left out is \<open>None\<close>.\<close>

record TxParams =
  p_type :: TxType
  p_counterparty :: "string option"
  p_amount :: rat
  p_fee :: "rat option"
  p_note :: "string option"

text \<open>
  The persisted state. \<open>users\<close> is \<open>None\<close> while the registry key has never been written,
  \<open>currentUserId\<close> is the session pointer, \<open>txs\<close> maps a user id to the list stored under
  that user's transaction key and \<open>secrets\<close> is the secure store. The three kinds of keys of
  the key-value store have different prefixes, so they never collide and are kept apart as
  fields.
\<close>

record Store =
  users :: "User list option"
  currentUserId :: "string option"
  txs :: "string \<rightharpoonup> Transaction list"
  secrets :: "string \<rightharpoonup> string"

text \<open>The source throws \<^verbatim>\<open>Error\<close> objects told apart by their message; the constructors
  carry the names the specification gives them:
  \<open>DuplicateIdentifier\<close> is "A user with that identifier already exists.",
  \<open>UserNotFound\<close> is "No user found with that identifier.",
  \<open>InvalidCredentials\<close> is "Incorrect password." and
  \<open>NoActiveSession\<close> is "No logged-in user.".\<close>

datatype error = DuplicateIdentifier | UserNotFound | InvalidCredentials | NoActiveSession

definition empty_store :: Store where
  "empty_store = \<lparr>users = None, currentUserId = None, txs = Map.empty, secrets = Map.empty\<rparr>"

subsection \<open>Helpers\<close>

text \<open>\<^verbatim>\<open>(await readJson<User[]>(USERS_KEY)) ?? []\<close>\<close>

definition users_of :: "Store \<Rightarrow> User list" where
  "users_of s = (case users s of None \<Rightarrow> [] | Some us \<Rightarrow> us)"

text \<open>\<^verbatim>\<open>(await readJson<Transaction[]>(TX_KEY_PREFIX + userId)) ?? []\<close>\<close>

definition txs_of :: "Store \<Rightarrow> string \<Rightarrow> Transaction list" where
  "txs_of s i = (case txs s i of None \<Rightarrow> [] | Some ts \<Rightarrow> ts)"

text \<open>\<^verbatim>\<open>!x\<close> for a value of type \<^verbatim>\<open>string | null\<close>: both \<^verbatim>\<open>null\<close> and the empty string
  are falsy.\<close>

definition falsy :: "string option \<Rightarrow> bool" where
  "falsy x = (case x of None \<Rightarrow> True | Some str \<Rightarrow> str = [])"

text \<open>\<^verbatim>\<open>Array.prototype.findIndex\<close>; the \<^verbatim>\<open>-1\<close> of the source is \<open>None\<close>.\<close>

fun findIndex :: "('a \<Rightarrow> bool) \<Rightarrow> 'a list \<Rightarrow> nat option" where
  "findIndex P [] = None"
| "findIndex P (x # xs) =
     (if P x then Some 0 else (case findIndex P xs of None \<Rightarrow> None | Some i \<Rightarrow> Some (Suc i)))"

text \<open>\<^verbatim>\<open>Math.round\<close>: the nearest integer, a tie going up.\<close>

definition math_round :: "rat \<Rightarrow> rat" where
  "math_round x = of_int \<lfloor>x + 1 / 2\<rfloor>"

text \<open>\<^verbatim>\<open>+(x).toFixed(2)\<close>: \<^verbatim>\<open>toFixed\<close> takes the sign off, picks the integer \<open>n\<close> with
  \<open>n / 100\<close> nearest to the absolute value (the larger one on a tie) and prints it with two
  decimals; the unary plus reads the decimal string back. (From \<open>10 ^ 21\<close> on
  \<^verbatim>\<open>toFixed\<close> prints the number as \<^verbatim>\<open>toString\<close> does; a double that large is a whole
  number, which either form prints exactly, so the case is not told apart.)\<close>

definition toFixed2 :: "rat \<Rightarrow> rat" where
  "toFixed2 x = (if x < 0 then - (of_int \<lfloor>- x * 100 + 1 / 2\<rfloor> / 100)
                 else of_int \<lfloor>x * 100 + 1 / 2\<rfloor> / 100)"

text \<open>
  \<^verbatim>\<open>Array.prototype.sort(cmp)\<close>, as a stable insertion sort: an element goes in front of
  another when the comparison of the two is not positive. The engines' algorithms differ, but
  each is a comparison sort that compares an element with other elements only, and every such
  sort returns the one sorted arrangement when the comparison orders the elements strictly,
  which is the only case the claim about the result's order relies on.
\<close>

fun insert_cmp :: "('a \<Rightarrow> 'a \<Rightarrow> int) \<Rightarrow> 'a \<Rightarrow> 'a list \<Rightarrow> 'a list" where
  "insert_cmp cmp x [] = [x]"
| "insert_cmp cmp x (y # ys) = (if cmp x y \<le> 0 then x # y # ys else y # insert_cmp cmp x ys)"

fun array_sort :: "('a \<Rightarrow> 'a \<Rightarrow> int) \<Rightarrow> 'a list \<Rightarrow> 'a list" where
  "array_sort cmp [] = []"
| "array_sort cmp (x # xs) = insert_cmp cmp x (array_sort cmp xs)"

subsection \<open>Users and authentication\<close>

text \<open>\<^verbatim>\<open>signupUser\<close>. The fresh id (\<^verbatim>\<open>uuidv4()\<close>) and the clock reading
  (\<^verbatim>\<open>new Date().toISOString()\<close>) come from outside and are arguments.\<close>

definition signupUser ::
  "string \<Rightarrow> string \<Rightarrow> string \<Rightarrow> string \<Rightarrow> string \<Rightarrow> Store \<Rightarrow> (error + User) \<times> Store" where
  "signupUser nm ident password newid now s =
     (let us = users_of s in
      case find (\<lambda>u. identifier_user u = ident) us of
        Some exists \<Rightarrow> (Inl DuplicateIdentifier, s)
      | None \<Rightarrow>
          (let user = \<lparr>id_user = newid, name = nm, identifier_user = ident, balance = 0,
                       createdAt_user = now\<rparr>
           in (Inr user,
               s\<lparr>users := Some (us @ [user]),
                 secrets := (secrets s)(newid \<mapsto> password),
                 currentUserId := Some newid,
                 txs := (txs s)(newid \<mapsto> [])\<rparr>)))"

text \<open>\<^verbatim>\<open>loginUser\<close>\<close>

definition loginUser :: "string \<Rightarrow> string \<Rightarrow> Store \<Rightarrow> (error + User) \<times> Store" where
  "loginUser ident password s =
     (case find (\<lambda>u. identifier_user u = ident) (users_of s) of
        None \<Rightarrow> (Inl UserNotFound, s)
      | Some user \<Rightarrow>
          (let secret = secrets s (id_user user) in
           if falsy secret \<or> secret \<noteq> Some password then (Inl InvalidCredentials, s)
           else (Inr user, s\<lparr>currentUserId := Some (id_user user)\<rparr>)))"

text \<open>\<^verbatim>\<open>logout\<close>\<close>

definition logout :: "Store \<Rightarrow> Store" where
  "logout s = s\<lparr>currentUserId := None\<rparr>"

text \<open>\<^verbatim>\<open>getCurrentUser\<close>\<close>

definition getCurrentUser :: "Store \<Rightarrow> User option" where
  "getCurrentUser s =
     (if falsy (currentUserId s) then None
      else find (\<lambda>u. Some (id_user u) = currentUserId s) (users_of s))"

subsection \<open>Transactions\<close>

text \<open>\<^verbatim>\<open>getTransactionsForUser\<close>: the stored list, sorted with the comparison
  \<^verbatim>\<open>(a, b) => (a.createdAt < b.createdAt ? 1 : -1)\<close>.\<close>

definition newest_first :: "Transaction \<Rightarrow> Transaction \<Rightarrow> int" where
  "newest_first a b = (if createdAt a < createdAt b then 1 else - 1)"

definition getTransactionsForUser :: "Store \<Rightarrow> string \<Rightarrow> Transaction list" where
  "getTransactionsForUser s i = array_sort newest_first (txs_of s i)"

text \<open>\<^verbatim>\<open>params.fee ?? Math.max(10, Math.round(params.amount * 0.015 * 100) / 100)\<close>\<close>

definition fee_of :: "TxParams \<Rightarrow> rat" where
  "fee_of ps =
     (case p_fee ps of
        Some f \<Rightarrow> f
      | None \<Rightarrow> max 10 (math_round (p_amount ps * (15 / 1000) * 100) / 100))"

text \<open>\<^verbatim>\<open>params.type === "send" ? params.amount + fee : params.amount - fee\<close>\<close>

definition total_of :: "TxParams \<Rightarrow> rat" where
  "total_of ps =
     (if p_type ps = Send then p_amount ps + fee_of ps else p_amount ps - fee_of ps)"

text \<open>The new balance, with the source's chain of tests; its last branch (no test holds)
  keeps the balance and is never taken, the type having four values.\<close>

definition newBalance_of :: "TxParams \<Rightarrow> rat \<Rightarrow> rat" where
  "newBalance_of ps old =
     (if p_type ps = Send then toFixed2 (old - total_of ps)
      else if p_type ps = Receive \<or> p_type ps = Topup \<or> p_type ps = Refund
        then toFixed2 (old + p_amount ps - fee_of ps)
      else old)"

text \<open>\<^verbatim>\<open>createTransactionForCurrentUser\<close>. The id of the new transaction and the clock
  reading are arguments. The list is written first, then the registry is read again and the
  entry at the index of the first user with the current user's id gets the new balance.\<close>

definition createTransactionForCurrentUser ::
  "TxParams \<Rightarrow> string \<Rightarrow> string \<Rightarrow> Store \<Rightarrow> (error + Transaction) \<times> Store" where
  "createTransactionForCurrentUser ps newid now s =
     (case getCurrentUser s of
        None \<Rightarrow> (Inl NoActiveSession, s)
      | Some user \<Rightarrow>
          (let fee = fee_of ps;
               total = total_of ps;
               newBalance = newBalance_of ps (balance user);
               tx = \<lparr>id_tx = newid, userId = id_user user, type_tx = p_type ps,
                     counterparty = p_counterparty ps, amount = p_amount ps, fee = fee,
                     total = total, note_tx = p_note ps, status = Completed,
                     createdAt = now\<rparr>;
               s1 = s\<lparr>txs := (txs s)(id_user user \<mapsto> tx # txs_of s (id_user user))\<rparr>;
               us = users_of s1
           in (case findIndex (\<lambda>u. id_user u = id_user user) us of
                 None \<Rightarrow> (Inr tx, s1)
               | Some idx \<Rightarrow>
                   (Inr tx, s1\<lparr>users := Some (us[idx := (us ! idx)\<lparr>balance := newBalance\<rparr>])\<rparr>))))"

text \<open>\<^verbatim>\<open>getBalanceForCurrentUser\<close>; the \<^verbatim>\<open>?? 0\<close> on the balance never applies, the
  field being a number.\<close>

definition getBalanceForCurrentUser :: "Store \<Rightarrow> rat" where
  "getBalanceForCurrentUser s = (case getCurrentUser s of None \<Rightarrow> 0 | Some user \<Rightarrow> balance user)"

subsection \<open>Notions of the specification\<close>


text \<open>A number with at most two decimals: a whole number of hundredths.\<close>

definition is_2dp :: "rat \<Rightarrow> bool" where
  "is_2dp x = (of_int \<lfloor>x * 100\<rfloor> = x * 100)"



subsection \<open>Sequences of calls\<close>

text \<open>A call of one of the four mutating functions, with what the outside world hands it
  (the generated id and the clock reading).\<close>

datatype Event =
    Signup string string string string string
  | Login string string
  | Logout
  | CreateTx TxParams string string

fun step :: "Event \<Rightarrow> Store \<Rightarrow> Store" where
  "step (Signup nm ident password newid now) s = snd (signupUser nm ident password newid now s)"
| "step (Login ident password) s = snd (loginUser ident password s)"
| "step Logout s = logout s"
| "step (CreateTx ps newid now) s = snd (createTransactionForCurrentUser ps newid now s)"

fun run :: "Event list \<Rightarrow> Store \<Rightarrow> Store" where
  "run [] s = s"
| "run (e # es) s = run es (step e s)"





subsection \<open>Invariants of the store\<close>





subsection \<open>Sample data\<close>

text \<open>The store after the first signup on a fresh device, the user it creates, and a few
  argument objects; the theorems below are run on them.\<close>

text \<open>Clock readings, as \<^verbatim>\<open>toISOString\<close> prints them.\<close>

abbreviation jan1 :: string where "jan1 \<equiv> ''2024-01-01T00:00:00.000Z''"
abbreviation jan1_noon :: string where "jan1_noon \<equiv> ''2024-01-01T12:00:00.000Z''"
abbreviation jan2 :: string where "jan2 \<equiv> ''2024-01-02T00:00:00.000Z''"
abbreviation jan3 :: string where "jan3 \<equiv> ''2024-01-03T00:00:00.000Z''"
abbreviation jan5 :: string where "jan5 \<equiv> ''2024-01-05T00:00:00.000Z''"

definition ada :: User where
  "ada = \<lparr>id_user = ''u1'', name = ''Ada'', identifier_user = ''ada@x.com'', balance = 0,
           createdAt_user = jan1\<rparr>"

definition ada_store :: Store where
  "ada_store =
     snd (signupUser ''Ada'' ''ada@x.com'' ''secret1'' ''u1'' jan1
            empty_store)"

definition send_50 :: TxParams where
  "send_50 = \<lparr>p_type = Send, p_counterparty = Some ''Bob'', p_amount = 50, p_fee = Some 5,
               p_note = None\<rparr>"

definition sent_50 :: Transaction where
  "sent_50 = \<lparr>id_tx = ''t1'', userId = ''u1'', type_tx = Send, counterparty = Some ''Bob'',
               amount = 50, fee = 5, total = 55, note_tx = None, status = Completed,
               createdAt = jan2\<rparr>"



definition dangling_store :: Store where
  "dangling_store = ada_store\<lparr>currentUserId := Some ''u9''\<rparr>"

definition topup_100 :: TxParams where
  "topup_100 = \<lparr>p_type = Topup, p_counterparty = None, p_amount = 100, p_fee = None,
                 p_note = None\<rparr>"

definition topped_100 :: Transaction where
  "topped_100 = \<lparr>id_tx = ''t2'', userId = ''u1'', type_tx = Topup, counterparty = None,
                  amount = 100, fee = 10, total = 90, note_tx = None, status = Completed,
                  createdAt = jan3\<rparr>"



definition refund_20 :: TxParams where
  "refund_20 = \<lparr>p_type = Refund, p_counterparty = Some ''Shop'', p_amount = 20,
                 p_fee = Some 0, p_note = None\<rparr>"

definition refunded_20 :: Transaction where
  "refunded_20 = \<lparr>id_tx = ''t3'', userId = ''u1'', type_tx = Refund,
                   counterparty = Some ''Shop'', amount = 20, fee = 0, total = 20,
                   note_tx = None, status = Completed,
                   createdAt = jan1_noon\<rparr>"

definition ada_signup :: Event where
  "ada_signup = Signup ''Ada'' ''ada@x.com'' ''secret1'' ''u1'' jan1"

definition first_calls :: "Event list" where
  "first_calls =
     [ada_signup,
      CreateTx send_50 ''t1'' jan2,
      CreateTx topup_100 ''t2'' jan3]"


text \<open>A third call whose clock reading is earlier than the two before it (the device clock
  was set back): the stored list is then not in the order of the timestamps.\<close>

definition history_store :: Store where
  "history_store =
     run (first_calls @ [CreateTx refund_20 ''t3'' jan1_noon]) empty_store"


definition bob :: User where
  "bob = \<lparr>id_user = ''u2'', name = ''Bob'', identifier_user = ''bob@x.com'', balance = 0,
           createdAt_user = jan5\<rparr>"

section \<open>Numbers with two decimals\<close>

lemma is_2dp_iff: "is_2dp x \<longleftrightarrow> (\<exists>k::int. x = of_int k / 100)"
proof
  assume "is_2dp x"
  then have e: "of_int \<lfloor>x * 100\<rfloor> = x * 100" unfolding is_2dp_def .
  have "x = x * 100 / 100" by simp
  also have "\<dots> = of_int \<lfloor>x * 100\<rfloor> / 100" by (simp only: e)
  finally have "x = of_int \<lfloor>x * 100\<rfloor> / 100" .
  then show "\<exists>k::int. x = of_int k / 100" by blast
next
  assume "\<exists>k::int. x = of_int k / 100"
  then obtain k :: int where "x = of_int k / 100" by blast
  then have "x * 100 = of_int k" by simp
  then show "is_2dp x" unfolding is_2dp_def by (simp only: floor_of_int)
qed





lemma is_2dp_of_int [simp]: "is_2dp (of_int k)"
  by (simp add: is_2dp_iff) (rule exI [of _ "k * 100"], simp)

lemma is_2dp_0 [simp]: "is_2dp 0"
  by (simp add: is_2dp_def)




lemma is_2dp_max: "is_2dp x \<Longrightarrow> is_2dp y \<Longrightarrow> is_2dp (max x y)"
  by (simp add: max_def)

lemma is_2dp_round: "is_2dp (math_round x / 100)"
  by (simp add: math_round_def is_2dp_def)

lemma fee_of_default_2dp: "p_fee ps = None \<Longrightarrow> is_2dp (fee_of ps)"
  using is_2dp_of_int [of 10] by (simp add: fee_of_def is_2dp_max is_2dp_round)


section \<open>The calls, step by step\<close>

lemma find_findIndex:
  "find P xs = Some u \<Longrightarrow> (\<And>x. x \<in> set xs \<Longrightarrow> Q x = P x) \<Longrightarrow>
   \<exists>i. findIndex Q xs = Some i \<and> i < length xs \<and> xs ! i = u \<and> (\<forall>j<i. \<not> P (xs ! j))"
proof (induction xs)
  case Nil
  then show ?case by simp
next
  case (Cons x xs)
  show ?case
  proof (cases "P x")
    case True
    with Cons.prems show ?thesis by simp
  next
    case False
    with Cons.prems have f: "find P xs = Some u" by simp
    from Cons.prems have q: "\<And>y. y \<in> set xs \<Longrightarrow> Q y = P y" by simp
    from Cons.IH [OF f q] obtain i where i: "findIndex Q xs = Some i" "i < length xs" "xs ! i = u"
      "\<forall>j<i. \<not> P (xs ! j)" by blast
    from False Cons.prems have nq: "\<not> Q x" by simp
    have "\<forall>j<Suc i. \<not> P ((x # xs) ! j)"
    proof (intro allI impI)
      fix j assume "j < Suc i"
      then show "\<not> P ((x # xs) ! j)" using False i(4) by (cases j) simp_all
    qed
    with i nq show ?thesis by simp
  qed
qed


lemma find_Some_P: "find P xs = Some u \<Longrightarrow> P u \<and> u \<in> set xs"
  by (induction xs) (auto split: if_splits)

lemma getCurrentUser_Some:
  "getCurrentUser s = Some u \<Longrightarrow> currentUserId s = Some (id_user u) \<and> u \<in> set (users_of s)"
  unfolding getCurrentUser_def by (auto split: if_splits dest: find_Some_P)

text \<open>What a successful call does, in one equation.\<close>

lemma createTransaction_Some:
  assumes cu: "getCurrentUser s = Some u"
  shows "\<exists>idx. idx < length (users_of s) \<and> users_of s ! idx = u \<and>
           (\<forall>j<idx. id_user (users_of s ! j) \<noteq> id_user u) \<and>
           createTransactionForCurrentUser ps newid now s =
             (Inr \<lparr>id_tx = newid, userId = id_user u, type_tx = p_type ps,
                    counterparty = p_counterparty ps, amount = p_amount ps, fee = fee_of ps,
                    total = total_of ps, note_tx = p_note ps, status = Completed,
                    createdAt = now\<rparr>,
              s\<lparr>txs := (txs s)(id_user u \<mapsto>
                     \<lparr>id_tx = newid, userId = id_user u, type_tx = p_type ps,
                      counterparty = p_counterparty ps, amount = p_amount ps, fee = fee_of ps,
                      total = total_of ps, note_tx = p_note ps, status = Completed,
                      createdAt = now\<rparr> # txs_of s (id_user u)),
                users := Some ((users_of s)[idx := u\<lparr>balance := newBalance_of ps (balance u)\<rparr>])\<rparr>)"
proof -
  from cu have cur: "currentUserId s = Some (id_user u)" by (simp add: getCurrentUser_Some)
  from cu have f: "find (\<lambda>v. Some (id_user v) = currentUserId s) (users_of s) = Some u"
    unfolding getCurrentUser_def by (simp split: if_splits)
  have "\<And>x. x \<in> set (users_of s) \<Longrightarrow> (id_user x = id_user u) = (Some (id_user x) = currentUserId s)"
    using cur by auto
  from find_findIndex [OF f this] obtain idx where
    idx: "findIndex (\<lambda>v. id_user v = id_user u) (users_of s) = Some idx" "idx < length (users_of s)"
      "users_of s ! idx = u" "\<forall>j<idx. Some (id_user (users_of s ! j)) \<noteq> currentUserId s"
    by blast
  from idx(4) cur have first: "\<forall>j<idx. id_user (users_of s ! j) \<noteq> id_user u" by simp
  have u1: "users_of (s\<lparr>txs := t\<rparr>) = users_of s" for t by (simp add: users_of_def)
  show ?thesis
    apply (rule exI [of _ idx])
    using idx(1,2,3) first cu
    by (simp add: createTransactionForCurrentUser_def Let_def u1)
qed




lemma createTransaction_None:
  "getCurrentUser s = None \<Longrightarrow>
   createTransactionForCurrentUser ps newid now s = (Inl NoActiveSession, s)"
  by (simp add: createTransactionForCurrentUser_def)


lemma find_None_id:
  "i \<notin> set (map id_user us) \<Longrightarrow> find (\<lambda>u. id_user u = i) us = None"
  by (induction us) auto





section \<open>Creating a transaction\<close>






text \<open>
  Claim C7. Without a session pointer the call fails with \<open>NoActiveSession\<close> and the store
  it leaves is the store it found: registry, transaction lists, session pointer and secrets.
\<close>

theorem createTransaction_no_session:
  "currentUserId s = None \<Longrightarrow>
   createTransactionForCurrentUser ps newid now s = (Inl NoActiveSession, s)"
  by (simp add: createTransaction_None getCurrentUser_def falsy_def)

theorem createTransaction_no_session_witness:
  "currentUserId empty_store = None \<and>
   createTransactionForCurrentUser send_50 ''t1'' jan2 empty_store =
     (Inl NoActiveSession, empty_store)"
  using createTransaction_no_session [of empty_store send_50 "''t1''" jan2]
  by (simp add: empty_store_def)

section \<open>The current user\<close>



text \<open>
  Claim C9, as the code has it. \<^verbatim>\<open>getCurrentUser\<close> returns none when the session pointer
  is unset, and it returns none as well, with no error, when the pointer is set to an id that
  no user of the registry has.
\<close>

theorem getCurrentUser_none:
  "(currentUserId s = None \<longrightarrow> getCurrentUser s = None) \<and>
   (currentUserId s = Some i \<and> i \<notin> set (map id_user (users_of s)) \<longrightarrow>
      getCurrentUser s = None)"
  by (auto simp: getCurrentUser_def falsy_def find_None_id)

theorem getCurrentUser_none_witness:
  "currentUserId empty_store = None \<and> getCurrentUser empty_store = None \<and>
   currentUserId dangling_store = Some ''u9'' \<and>
   ''u9'' \<notin> set (map id_user (users_of dangling_store)) \<and>
   getCurrentUser dangling_store = None"
proof -
  have a: "currentUserId empty_store = None" by (simp add: empty_store_def)
  have b: "currentUserId dangling_store = Some ''u9''" by (simp add: dangling_store_def)
  have c: "''u9'' \<notin> set (map id_user (users_of dangling_store))" by code_simp
  from getCurrentUser_none [of empty_store] getCurrentUser_none [of dangling_store "''u9''"]
    a b c
  show ?thesis by simp
qed

text \<open>Claim C9 as it is written asks for an error when the pointer dangles. In a store
  whose pointer is \<open>u9\<close> and whose only user has id \<open>u1\<close> the function returns none, the
  value it returns for an unset pointer, and the balance query built on it returns 0.\<close>

theorem getCurrentUser_dangling_counterexample:
  "currentUserId dangling_store = Some ''u9'' \<and>
   map id_user (users_of dangling_store) = [''u1''] \<and>
   getCurrentUser dangling_store = None \<and>
   getCurrentUser dangling_store = getCurrentUser empty_store \<and>
   getBalanceForCurrentUser dangling_store = 0"
  by code_simp

section \<open>The registry under the calls\<close>

subsection \<open>Signup\<close>

lemma signup_duplicate:
  "\<exists>u \<in> set (users_of s). identifier_user u = ident \<Longrightarrow>
   signupUser nm ident password newid now s = (Inl DuplicateIdentifier, s)"
proof -
  assume "\<exists>u \<in> set (users_of s). identifier_user u = ident"
  then have "find (\<lambda>u. identifier_user u = ident) (users_of s) \<noteq> None"
    by (simp add: find_None_iff) blast
  then show ?thesis by (auto simp: signupUser_def)
qed

lemma signup_new:
  assumes "\<not> (\<exists>u \<in> set (users_of s). identifier_user u = ident)"
  shows "signupUser nm ident password newid now s =
     (Inr \<lparr>id_user = newid, name = nm, identifier_user = ident, balance = 0,
           createdAt_user = now\<rparr>,
      s\<lparr>users := Some (users_of s @ [\<lparr>id_user = newid, name = nm, identifier_user = ident,
                                       balance = 0, createdAt_user = now\<rparr>]),
        secrets := (secrets s)(newid \<mapsto> password),
        currentUserId := Some newid,
        txs := (txs s)(newid \<mapsto> [])\<rparr>)"
proof -
  from assms have "find (\<lambda>u. identifier_user u = ident) (users_of s) = None"
    by (simp add: find_None_iff) 
  then show ?thesis by (simp add: signupUser_def Let_def)
qed

lemma signup_keeps_identifiers_distinct:
  assumes "distinct (map identifier_user (users_of s))"
  shows "distinct (map identifier_user (users_of (snd (signupUser nm ident password newid now s))))"
proof (cases "\<exists>u \<in> set (users_of s). identifier_user u = ident")
  case True
  with assms show ?thesis by (simp add: signup_duplicate)
next
  case False
  then have "ident \<notin> set (map identifier_user (users_of s))" by auto
  with assms show ?thesis by (simp add: signup_new [OF False] users_of_def)
qed

subsection \<open>Login and logout\<close>

lemma login_users_of: "users_of (snd (loginUser ident password s)) = users_of s"
  by (simp add: loginUser_def users_of_def Let_def split: option.splits)


lemma logout_users_of: "users_of (logout s) = users_of s"
  by (simp add: logout_def users_of_def)


subsection \<open>Creating a transaction\<close>

lemma createTransaction_users:
  assumes "getCurrentUser s = Some u"
  shows "\<exists>idx. idx < length (users_of s) \<and> users_of s ! idx = u \<and>
           users_of (snd (createTransactionForCurrentUser ps newid now s)) =
             (users_of s)[idx := u\<lparr>balance := newBalance_of ps (balance u)\<rparr>]"
  using createTransaction_Some [OF assms, of ps newid now] by (auto simp: users_of_def)


lemma createTransaction_identifiers:
  "map identifier_user (users_of (snd (createTransactionForCurrentUser ps newid now s))) =
   map identifier_user (users_of s)"
proof (cases "getCurrentUser s")
  case None
  then show ?thesis by (simp add: createTransaction_None)
next
  case (Some u)
  from createTransaction_users [OF Some, of ps newid now] obtain idx where
    "idx < length (users_of s)" "users_of s ! idx = u"
    "users_of (snd (createTransactionForCurrentUser ps newid now s)) =
       (users_of s)[idx := u\<lparr>balance := newBalance_of ps (balance u)\<rparr>]" by blast
  then show ?thesis by (simp add: map_update) (metis list_update_id nth_map)
qed

lemma step_identifiers_distinct:
  "distinct (map identifier_user (users_of s)) \<Longrightarrow>
   distinct (map identifier_user (users_of (step e s)))"
  by (cases e)
     (simp_all add: signup_keeps_identifiers_distinct createTransaction_identifiers
        login_users_of logout_users_of)

lemma run_identifiers_distinct:
  "distinct (map identifier_user (users_of s)) \<Longrightarrow>
   distinct (map identifier_user (users_of (run evs s)))"
  by (induction evs arbitrary: s) (simp_all add: step_identifiers_distinct)

text \<open>
  Claim C4. A signup whose identifier is already in the registry (the comparison is
  \<^verbatim>\<open>===\<close> on the strings) fails with \<open>DuplicateIdentifier\<close> and leaves the store as it
  found it: registry, secrets, session pointer and transaction lists. A signup that succeeds
  in a registry without a repeated identifier leaves one without a repeated identifier, and
  so no store reached from the empty one by calls of the engine has two users with the same
  identifier.
\<close>

theorem signup_unique_identifier:
  "(ident \<in> set (map identifier_user (users_of s)) \<longrightarrow>
      signupUser nm ident password newid now s = (Inl DuplicateIdentifier, s)) \<and>
   (distinct (map identifier_user (users_of s)) \<and>
    signupUser nm ident password newid now s = (Inr u, s') \<longrightarrow>
      distinct (map identifier_user (users_of s'))) \<and>
   distinct (map identifier_user (users_of (run evs empty_store)))"
proof -
  have "distinct (map identifier_user (users_of empty_store))"
    by (simp add: users_of_def empty_store_def)
  then have "distinct (map identifier_user (users_of (run evs empty_store)))"
    by (rule run_identifiers_distinct)
  moreover have "distinct (map identifier_user (users_of s'))"
    if "distinct (map identifier_user (users_of s))"
      "signupUser nm ident password newid now s = (Inr u, s')"
    using signup_keeps_identifiers_distinct [OF that(1), of nm ident password newid now] that(2)
    by simp
  moreover have "signupUser nm ident password newid now s = (Inl DuplicateIdentifier, s)"
    if "ident \<in> set (map identifier_user (users_of s))"
    using that by (intro signup_duplicate) auto
  ultimately show ?thesis by blast
qed

theorem signup_unique_identifier_witness:
  "''ada@x.com'' \<in> set (map identifier_user (users_of ada_store)) \<and>
   signupUser ''Ada Two'' ''ada@x.com'' ''secret2'' ''u2'' jan5 ada_store =
     (Inl DuplicateIdentifier, ada_store) \<and>
   distinct (map identifier_user (users_of ada_store)) \<and>
   signupUser ''Bob'' ''bob@x.com'' ''secret2'' ''u2'' jan5 ada_store =
     (Inr bob, snd (signupUser ''Bob'' ''bob@x.com'' ''secret2'' ''u2'' jan5 ada_store)) \<and>
   map identifier_user
     (users_of (snd (signupUser ''Bob'' ''bob@x.com'' ''secret2'' ''u2'' jan5 ada_store))) =
     [''ada@x.com'', ''bob@x.com''] \<and>
   distinct (map identifier_user
     (users_of (snd (signupUser ''Bob'' ''bob@x.com'' ''secret2'' ''u2'' jan5 ada_store)))) \<and>
   distinct (map identifier_user (users_of (run first_calls empty_store)))"
proof -
  have a: "''ada@x.com'' \<in> set (map identifier_user (users_of ada_store))" by code_simp
  have d: "distinct (map identifier_user (users_of ada_store))" by code_simp
  have "fst (signupUser ''Bob'' ''bob@x.com'' ''secret2'' ''u2'' jan5 ada_store) = Inr bob"
    by code_simp
  then have ok: "signupUser ''Bob'' ''bob@x.com'' ''secret2'' ''u2'' jan5 ada_store =
     (Inr bob, snd (signupUser ''Bob'' ''bob@x.com'' ''secret2'' ''u2'' jan5 ada_store))"
    by (metis prod.collapse)
  have m: "map identifier_user
     (users_of (snd (signupUser ''Bob'' ''bob@x.com'' ''secret2'' ''u2'' jan5 ada_store))) =
     [''ada@x.com'', ''bob@x.com'']" by code_simp
  from signup_unique_identifier
         [of "''ada@x.com''" ada_store "''Ada Two''" "''secret2''" "''u2''" jan5
             bob "snd (signupUser ''Bob'' ''bob@x.com'' ''secret2'' ''u2'' jan5 ada_store)"
             first_calls]
       signup_unique_identifier
         [of "''bob@x.com''" ada_store "''Bob''" "''secret2''" "''u2''" jan5
             bob "snd (signupUser ''Bob'' ''bob@x.com'' ''secret2'' ''u2'' jan5 ada_store)"
             first_calls]
       a d ok m
  show ?thesis by simp
qed

section \<open>Login\<close>

text \<open>What \<^verbatim>\<open>loginUser\<close> does once the identifier is found: it succeeds exactly when the
  stored secret is the supplied password and is not the empty string.\<close>

lemma login_gate:
  assumes "find (\<lambda>u. identifier_user u = ident) (users_of s) = Some user"
  shows "loginUser ident password s =
           (if secrets s (id_user user) = Some password \<and> password \<noteq> []
            then (Inr user, s\<lparr>currentUserId := Some (id_user user)\<rparr>)
            else (Inl InvalidCredentials, s))"
  using assms by (auto simp: loginUser_def Let_def falsy_def split: option.splits)


section \<open>Listing the transactions\<close>

lemma mset_insert_cmp: "mset (insert_cmp cmp x ys) = add_mset x (mset ys)"
  by (induction ys) simp_all

lemma mset_array_sort: "mset (array_sort cmp xs) = mset xs"
  by (induction xs) (simp_all add: mset_insert_cmp)

lemma set_insert_cmp: "set (insert_cmp cmp x ys) = insert x (set ys)"
  using mset_insert_cmp [of cmp x ys, THEN arg_cong, of set_mset] by simp

lemma newest_first_le: "newest_first a b \<le> 0 \<longleftrightarrow> createdAt b \<le> createdAt a"
  by (auto simp: newest_first_def)

lemma descending_insert:
  "sorted_wrt (\<lambda>a b. createdAt b \<le> createdAt a) ys \<Longrightarrow>
   sorted_wrt (\<lambda>a b. createdAt b \<le> createdAt a) (insert_cmp newest_first x ys)"
proof (induction ys)
  case Nil
  then show ?case by simp
next
  case (Cons y ys)
  show ?case
  proof (cases "newest_first x y \<le> 0")
    case True
    then have "createdAt y \<le> createdAt x" by (simp add: newest_first_le)
    with Cons.prems True show ?thesis by auto
  next
    case False
    then have "createdAt x \<le> createdAt y" by (simp add: newest_first_le)
    with Cons False show ?thesis by (auto simp: set_insert_cmp)
  qed
qed

lemma descending_array_sort:
  "sorted_wrt (\<lambda>a b. createdAt b \<le> createdAt a) (array_sort newest_first xs)"
  by (induction xs) (simp_all add: descending_insert)

lemma ascending_unique:
  fixes ts rs :: "Transaction list"
  assumes m: "mset rs = mset ts"
    and st: "sorted_wrt (\<lambda>a b. createdAt a < createdAt b) ts"
    and sr: "sorted_wrt (\<lambda>a b. createdAt a \<le> createdAt b) rs"
  shows "rs = ts"
proof -
  from st have "sorted_wrt (<) (map createdAt ts)" by (simp add: sorted_wrt_map)
  then have s1: "sorted (map createdAt ts)" and d1: "distinct (map createdAt ts)"
    by (simp_all add: strict_sorted_iff)
  from sr have s2: "sorted (map createdAt rs)" by (simp add: sorted_wrt_map)
  from m have "mset (map createdAt rs) = mset (map createdAt ts)" by simp
  with s1 s2 have e: "map createdAt rs = map createdAt ts"
    by (metis properties_for_sort sorted_sort_id)
  from d1 have "inj_on createdAt (set ts)" by (simp add: distinct_map)
  moreover from m have "set rs = set ts" by (rule mset_eq_setD)
  ultimately have "inj_on createdAt (set rs \<union> set ts)" by simp
  with e show ?thesis by (simp add: inj_on_map_eq_map)
qed

text \<open>Whatever the timestamps, the result holds the stored transactions, each as often as
  it is stored, and no transaction in it is older than one after it.\<close>

lemma transactions_sorted_permutation:
  "mset (getTransactionsForUser s i) = mset (txs_of s i) \<and>
   sorted_wrt (\<lambda>a b. createdAt b \<le> createdAt a) (getTransactionsForUser s i)"
  by (simp add: getTransactionsForUser_def mset_array_sort descending_array_sort)

text \<open>
  Claim C6. When the transactions stored for a user are \<open>ts\<close> in some order, and \<open>ts\<close>
  lists them by strictly increasing \<open>createdAt\<close>, then \<^verbatim>\<open>getTransactionsForUser\<close> returns
  exactly \<open>ts\<close> reversed: the newest first, down to the oldest.
\<close>

theorem transactions_newest_first:
  assumes "mset ts = mset (txs_of s i)"
    and "sorted_wrt (\<lambda>a b. createdAt a < createdAt b) ts"
  shows "getTransactionsForUser s i = rev ts"

proof -
  let ?r = "getTransactionsForUser s i"
  have "mset (rev ?r) = mset ts" using assms(1) by (simp add: getTransactionsForUser_def mset_array_sort)
  moreover have "sorted_wrt (\<lambda>a b. createdAt a \<le> createdAt b) (rev ?r)"
    using descending_array_sort [of "txs_of s i"]
    by (simp add: getTransactionsForUser_def sorted_wrt_rev)
  ultimately have "rev ?r = ts" using assms(2) by (intro ascending_unique)
  then show ?thesis by (metis rev_rev_ident)
qed

theorem transactions_newest_first_witness:
  "txs_of history_store ''u1'' = [refunded_20, topped_100, sent_50] \<and>
   mset [refunded_20, sent_50, topped_100] = mset (txs_of history_store ''u1'') \<and>
   sorted_wrt (\<lambda>a b. createdAt a < createdAt b) [refunded_20, sent_50, topped_100] \<and>
   getTransactionsForUser history_store ''u1'' = [topped_100, sent_50, refunded_20]"
proof -
  have st: "txs_of history_store ''u1'' = [refunded_20, topped_100, sent_50]" by code_simp
  then have m: "mset [refunded_20, sent_50, topped_100] = mset (txs_of history_store ''u1'')"
    by simp
  have o: "sorted_wrt (\<lambda>a b. createdAt a < createdAt b) [refunded_20, sent_50, topped_100]"
    by code_simp
  from transactions_newest_first [OF m o] st m o show ?thesis by simp
qed

section \<open>The balance and the transactions\<close>


















section \<open>The default fee\<close>







end
